theory Spec2Isabelle
  imports Main "HOL-Library.Word"
begin

section \<open>Characters and number formatting\<close>

text \<open>
  The bytes the renderer compares against and the decimal rendering of \<^verbatim>\<open>std::to_string\<close>
  and of \<^verbatim>\<open>{}\<close> in \<^verbatim>\<open>std::format\<close> for unsigned integers.
\<close>

definition tab_char :: char where
  "tab_char = CHR 0x09"

definition newline_char :: char where
  "newline_char = CHR 0x0A"

definition cr_char :: char where
  "cr_char = CHR 0x0D"

definition space_char :: char where
  "space_char = CHR 0x20"

definition nul_char :: char where
  "nul_char = CHR 0x00"

definition dquote_char :: char where
  "dquote_char = CHR 0x22"

definition digit_char :: "nat \<Rightarrow> char" where
  "digit_char d = ''0123456789'' ! d"

function to_string :: "nat \<Rightarrow> string" where
  "to_string n = (if n < 10 then [digit_char n] else to_string (n div 10) @ [digit_char (n mod 10)])"
  by pat_completeness auto
termination
  by (relation "measure (\<lambda>n. n)") auto

declare to_string.simps [simp del]

section \<open>Data model\<close>

text \<open>
  \<^verbatim>\<open>Source.h\<close>, \<^verbatim>\<open>Token.h\<close>, \<^verbatim>\<open>Diagnostic.h\<close> and \<^verbatim>\<open>Context.h\<close> are not among the
  sources; the records below hold the fields that \<^verbatim>\<open>Context.cpp\<close>,
  \<^verbatim>\<open>default_diagnostic_callback.cpp\<close> and \<^verbatim>\<open>TokenBuffer.h\<close> read and write. Identifiers
  are 32-bit (\<^verbatim>\<open>TokenBuffer::end\<close> casts the size to \<^verbatim>\<open>uint32_t\<close>; the caret loop of
  \<^verbatim>\<open>print_location\<close> runs a \<^verbatim>\<open>uint32_t\<close> over the columns).
\<close>

datatype error =
    AssertionFailed string
  | BufferLocked
  | SourceOutOfRange
  | LengthError

type_synonym SourceID = "32 word"

type_synonym TokenID = "32 word"

record Location =
  sourceID :: SourceID
  lineStart :: "32 word"
  collumnStart :: "32 word"
  lineEnd :: "32 word"
  collumnEnd :: "32 word"

text \<open>
  A token's kind is an enumeration of \<^verbatim>\<open>Token.h\<close>, kept as its ordinal. The payload is one of
  none, bool, u64, f64 (kept as its 64 bits) and an owned string.
\<close>

type_synonym TokenKind = nat

datatype Payload =
    NoPayload
  | BoolPayload bool
  | IntPayload "64 word"
  | FloatPayload "64 word"
  | StringPayload string

record Token =
  tok_kind :: TokenKind
  tok_location :: Location
  tok_payload :: Payload

record TokenBuffer =
  tokens :: "Token list"
  string_literals :: "string list"
  is_locked :: bool

record Source =
  src_id :: SourceID
  src_path :: string
  src_data :: string
  token_buffer :: TokenBuffer

datatype Level = Fatal | Error | Warning | Info

datatype Code = MiscFileDoesNotExist | MiscLoadFileFailed | OtherCode nat

record DiagnosticInfo =
  info_message :: string
  info_location :: "Location option"

record Diagnostic =
  diag_level :: Level
  diag_code :: Code
  diag_location :: "Location option"
  diag_message :: string
  diag_infos :: "DiagnosticInfo list"

section \<open>The default diagnostic renderer\<close>

text \<open>
  \<^verbatim>\<open>core::Printer\<close> is an external collaborator: a rendering is the list of calls made on it,
  in order. The formatters of \<^verbatim>\<open>Diagnostic::Level\<close> and \<^verbatim>\<open>Diagnostic::Code\<close> and
  \<^verbatim>\<open>Source::getLocationAsString\<close> are not among the sources and are taken as parameters.
\<close>

datatype printer_call =
    printGray string
  | printCyan string
  | printFatal string
  | printError string
  | printWarning string
  | printInfo string

record render_env =
  getLocationAsString :: "Source \<Rightarrow> string"
  format_level :: "Level \<Rightarrow> string"
  format_code :: "Code \<Rightarrow> string"

text \<open>
  \<^verbatim>\<open>source.getData()[i]\<close>. The data is the \<^verbatim>\<open>std::string\<close> that \<^verbatim>\<open>run_load_file\<close> hands
  to \<^verbatim>\<open>addSource\<close>; for a \<^verbatim>\<open>std::string\<close> the subscript at \<^verbatim>\<open>size()\<close> yields the
  terminating NUL. The scans below never subscript beyond \<^verbatim>\<open>size()\<close>
  (lemma \<open>print_location_accessed_le_size\<close>), so the value chosen there is never used.
\<close>

definition byte_at :: "string \<Rightarrow> nat \<Rightarrow> char" where
  "byte_at d i = (if i < length d then d ! i else nul_char)"

text \<open>
  First loop of \<^verbatim>\<open>print_location\<close> (lines 37-56): advance \<open>cursor\<close> to the first byte of
  line \<open>line_start\<close>. The last argument is ghost state: the indices at which the data has been
  subscripted so far, one entry per distinct index and iteration. The \<^verbatim>\<open>debugAssert\<close> is a
  branch of its own.
\<close>

function find_line :: "string \<Rightarrow> nat \<Rightarrow> nat \<Rightarrow> nat \<Rightarrow> nat list \<Rightarrow> nat list \<times> (error + nat)" where
  "find_line d line_start cursor current_line rd =
     (if current_line < line_start then
        (if \<not> cursor < length d then
           (rd, Inl (AssertionFailed ''out of bounds looking for line in source code for error''))
         else if byte_at d cursor = newline_char then
           find_line d line_start (cursor + 1) (current_line + 1) (rd @ [cursor])
         else if byte_at d cursor = cr_char then
           (if byte_at d (cursor + 1) = newline_char then
              find_line d line_start (cursor + 1 + 1) (current_line + 1) (rd @ [cursor, cursor + 1])
            else
              find_line d line_start (cursor + 1) (current_line + 1) (rd @ [cursor, cursor + 1]))
         else
           find_line d line_start (cursor + 1) current_line (rd @ [cursor]))
      else (rd, Inr cursor))"
  by pat_completeness auto
termination
  by (relation "measure (\<lambda>(d, line_start, cursor, current_line, rd). length d - cursor)") auto

declare find_line.simps [simp del]

text \<open>
  Second loop (lines 62-77): collect the line without its leading blanks. The loop condition
  subscripts the data before it compares \<open>cursor\<close> with the size, so the index of the exit
  test is logged as well. \<open>point_collumn\<close> is a \<^verbatim>\<open>size_t\<close>: the decrement wraps.
\<close>

function get_line :: "string \<Rightarrow> nat \<Rightarrow> string \<Rightarrow> 64 word \<Rightarrow> bool \<Rightarrow> nat list
    \<Rightarrow> nat list \<times> string \<times> 64 word" where
  "get_line d cursor line_str point_collumn remove_whitespace rd =
     (if byte_at d cursor \<noteq> newline_char \<and> byte_at d cursor \<noteq> cr_char \<and> cursor < length d then
        (if remove_whitespace \<and> (byte_at d cursor = tab_char \<or> byte_at d cursor = space_char) then
           get_line d (cursor + 1) line_str (point_collumn - 1) remove_whitespace (rd @ [cursor])
         else
           get_line d (cursor + 1) (line_str @ [byte_at d cursor]) point_collumn False (rd @ [cursor]))
      else (rd @ [cursor], line_str, point_collumn))"
  by pat_completeness auto
termination
  by (relation "measure (\<lambda>(d, cursor, line_str, point_collumn, remove_whitespace, rd). length d - cursor)") auto

declare get_line.simps [simp del]

text \<open>
  The pointer line (lines 95-115). A loop \<^verbatim>\<open>for(i = a; i < b; i += 1)\<close> over unsigned
  \<open>a\<close>, \<open>b\<close> runs \<open>b - a\<close> times when \<open>a < b\<close> and not at all otherwise; the bounds
  \<^verbatim>\<open>point_collumn - 1\<close>, \<^verbatim>\<open>collumnEnd + 1\<close> and \<^verbatim>\<open>line_str.size() + 1\<close> are computed in
  the loop's unsigned type and wrap.
\<close>

definition loop_count :: "'a::len word \<Rightarrow> 'a word \<Rightarrow> nat" where
  "loop_count a b = (if a < b then unat b - unat a else 0)"

definition pointer_str :: "Location \<Rightarrow> string \<Rightarrow> 64 word \<Rightarrow> string" where
  "pointer_str location line_str point_collumn =
     replicate (loop_count 0 (point_collumn - 1)) space_char
     @ (if lineStart location = lineEnd location then
          replicate (loop_count (collumnStart location) (collumnEnd location + 1)) CHR ''^''
        else
          (let n = loop_count point_collumn (word_of_nat (length line_str) + 1)
           in if n = 0 then [] else CHR ''^'' # replicate (n - 1) CHR ''~''))
     @ [newline_char]"

fun print_pointer :: "Level \<Rightarrow> string \<Rightarrow> printer_call" where
  "print_pointer Fatal s = printError s"
| "print_pointer Error s = printError s"
| "print_pointer Warning s = printWarning s"
| "print_pointer Info s = printInfo s"

text \<open>
  The blanks before the carets are appended one at a time, \<^verbatim>\<open>point_collumn - 1\<close> of them
  (line 97). When the caret column is 0 or lies within the leading blanks that the second loop
  removed, \<open>point_collumn\<close> has reached 0 or wrapped below it and that number is at least
  \<open>2 ^ 63\<close>, more than a \<^verbatim>\<open>std::string\<close> can hold (its \<^verbatim>\<open>max_size()\<close> is below
  \<open>2 ^ 63\<close>): the append throws, and since \<^verbatim>\<open>print_location\<close> is \<^verbatim>\<open>noexcept\<close> the program
  terminates there. The location line, the source line and the gutter have been printed by
  then; the pointer line has not.
\<close>

definition pointer_fits :: "64 word \<Rightarrow> bool" where
  "pointer_fits point_collumn = (loop_count 0 (point_collumn - 1) < 2 ^ 63)"

record rendering =
  printed :: "printer_call list"
  accessed :: "nat list"
  failure :: "error option"

text \<open>
  \<^verbatim>\<open>print_location\<close> (lines 15-123): what it printed, the indices at which it subscripted the
  data, and what stopped it, if anything: the \<^verbatim>\<open>debugAssert\<close> of the first loop or the
  pointer line that cannot be built.
\<close>

definition print_location :: "render_env \<Rightarrow> Source \<Rightarrow> Level \<Rightarrow> Location \<Rightarrow> rendering" where
  "print_location env source lvl location =
     (let line_number_str = to_string (unat (lineStart location));
          out1 = [printGray (tab_char # getLocationAsString env source @ '':'' @ line_number_str
                    @ '':'' @ to_string (unat (collumnStart location)) @ [newline_char])]
      in case find_line (src_data source) (unat (lineStart location)) 0 1 [] of
           (rd, Inl e) \<Rightarrow> \<lparr>printed = out1, accessed = rd, failure = Some e\<rparr>
         | (rd, Inr cursor) \<Rightarrow>
             (case get_line (src_data source) cursor [] (ucast (collumnStart location)) True rd of
                (rd', line_str, point_collumn) \<Rightarrow>
                  (let out2 = out1
                     @ [printGray (tab_char # line_number_str @ '' | '' @ line_str @ [newline_char]),
                        printGray (tab_char # replicate (length line_number_str) space_char @ '' | '')]
                   in if pointer_fits point_collumn then
                        \<lparr>printed = out2 @ [print_pointer lvl (pointer_str location line_str point_collumn)],
                         accessed = rd', failure = None\<rparr>
                      else \<lparr>printed = out2, accessed = rd', failure = Some LengthError\<rparr>)))"

section \<open>TokenBuffer\<close>

text \<open>
  \<^verbatim>\<open>TokenBuffer.h\<close>: a default-constructed buffer is empty and unlocked; \<^verbatim>\<open>lock\<close> sets
  the flag, and no member function of the class clears it. The move constructor takes the
  flag of the buffer it moves from.
\<close>

definition TokenBuffer_new :: TokenBuffer where
  "TokenBuffer_new = \<lparr>tokens = [], string_literals = [], is_locked = False\<rparr>"

definition lock :: "TokenBuffer \<Rightarrow> TokenBuffer" where
  "lock tb = tb\<lparr>is_locked := True\<rparr>"

definition isLocked :: "TokenBuffer \<Rightarrow> bool" where
  "isLocked tb = is_locked tb"

definition size_tb :: "TokenBuffer \<Rightarrow> nat" where
  "size_tb tb = length (tokens tb)"

text \<open>
  Modelled from the spec: the bodies of the five \<^verbatim>\<open>createToken\<close> overloads are in
  \<^verbatim>\<open>TokenBuffer.cpp\<close>, which is not among the sources. The spec, section 4.1: the call
  appends the token and returns its TokenID, the position it was appended at; the string
  overload also takes the literal into the buffer's own store; after \<^verbatim>\<open>lock()\<close> a call is a
  contract violation that fails with \<open>BufferLocked\<close> in checked builds. The overloads differ in
  the payload only and are one function here.
\<close>

definition createToken :: "TokenKind \<Rightarrow> Location \<Rightarrow> Payload \<Rightarrow> TokenBuffer \<Rightarrow> error + (TokenID \<times> TokenBuffer)" where
  "createToken k loc p tb =
     (if is_locked tb then Inl BufferLocked
      else Inr (word_of_nat (length (tokens tb)),
                tb\<lparr>tokens := tokens tb @ [\<lparr>tok_kind = k, tok_location = loc, tok_payload = p\<rparr>],
                   string_literals :=
                     (case p of StringPayload s \<Rightarrow> string_literals tb @ [s] | _ \<Rightarrow> string_literals tb)\<rparr>))"

text \<open>
  A client's use of a buffer: a sequence of \<^verbatim>\<open>createToken\<close> and \<^verbatim>\<open>lock\<close> calls. A call that
  fails leaves the buffer as it was.
\<close>

datatype buffer_op = CreateToken TokenKind Location Payload | Lock

fun apply_buffer_op :: "TokenBuffer \<Rightarrow> buffer_op \<Rightarrow> TokenBuffer" where
  "apply_buffer_op tb (CreateToken k loc p) =
     (case createToken k loc p tb of Inl e \<Rightarrow> tb | Inr (i, tb') \<Rightarrow> tb')"
| "apply_buffer_op tb Lock = lock tb"

definition apply_buffer_ops :: "TokenBuffer \<Rightarrow> buffer_op list \<Rightarrow> TokenBuffer" where
  "apply_buffer_ops tb ops = foldl apply_buffer_op tb ops"

section \<open>The driver\<close>

record Config =
  numThreads :: nat
  maxNumErrors :: nat

datatype Task = LoadFileTask string | TokenizeFileTask SourceID

record Worker =
  is_working :: bool

text \<open>
  The state of a \<^verbatim>\<open>Context\<close> that \<^verbatim>\<open>Context.cpp\<close> reads and writes. The queue is a FIFO
  (head first); \<open>sources\<close> is the SourceManager's sequence in insertion order. Three fields
  record effects on the outside: \<open>emitted\<close> the diagnostics delivered to the callback, in
  order; \<open>traces\<close> the messages given to \<^verbatim>\<open>emitTrace\<close>; \<open>shutdown_helpers\<close> the number of
  detached shutdown threads spawned. The counters are natural numbers; their width is declared
  in \<^verbatim>\<open>Context.h\<close>, which is not among the sources.
\<close>

record Context =
  config :: Config
  workers :: "Worker list"
  shutting_down_threads :: bool
  tasks :: "Task list"
  sources :: "Source list"
  num_errors :: nat
  hit_fail_condition :: bool
  task_group_running :: bool
  shutdown_helpers :: nat
  emitted :: "Diagnostic list"
  traces :: "string list"

text \<open>
  External collaborators. The file primitives are those of \<^verbatim>\<open>evo::fs\<close>, read as a snapshot
  of the disk. The tokenizer (\<^verbatim>\<open>Tokenizer.h\<close>, not among the sources) is given the driver
  and a source id; it returns the token buffer or an error, and it acts on the driver only by
  the diagnostics it emits through it (spec, section 6): how many of them the driver counted
  as errors, whether they raised the fail condition, and the diagnostics delivered.
\<close>

record tokenize_outcome =
  tk_counted_errors :: nat
  tk_raised_fail :: bool
  tk_emitted :: "Diagnostic list"
  tk_result :: "TokenBuffer option"

record externals =
  fs_exists :: "string \<Rightarrow> bool"
  fs_open :: "string \<Rightarrow> bool"
  fs_read :: "string \<Rightarrow> string option"
  tokenize :: "Context \<Rightarrow> SourceID \<Rightarrow> tokenize_outcome"

text \<open>
  Modelled from the spec: \<^verbatim>\<open>isSingleThreaded\<close>, \<^verbatim>\<open>isMultiThreaded\<close> and
  \<^verbatim>\<open>hasHitFailCondition\<close> are declared in \<^verbatim>\<open>Context.h\<close>, which is not among the sources.
  The spec, section 4.6: \<open>num_threads\<close> 0 means single-threaded, otherwise it is the pool size.
\<close>

definition isSingleThreaded :: "Context \<Rightarrow> bool" where
  "isSingleThreaded c = (numThreads (config c) = 0)"

definition isMultiThreaded :: "Context \<Rightarrow> bool" where
  "isMultiThreaded c = (numThreads (config c) \<noteq> 0)"

definition hasHitFailCondition :: "Context \<Rightarrow> bool" where
  "hasHitFailCondition c = hit_fail_condition c"

definition threadsRunning :: "Context \<Rightarrow> error + bool" where
  "threadsRunning c =
     (if \<not> isMultiThreaded c then Inl (AssertionFailed ''Context is not set to be multi-threaded'')
      else if workers c = [] then Inr False
      else Inr (shutting_down_threads c = False))"

text \<open>
  Modelled from the spec: \<^verbatim>\<open>SourceManager.h\<close> is not among the sources. The spec, sections 3
  and 4.2: \<open>add_source\<close> appends a new Source with a default-constructed empty TokenBuffer and
  the next identifier, a dense 32-bit number assigned monotonically; \<open>get(id)\<close> is the source
  registered under the identifier; \<open>reserve\<close> is a capacity hint.
\<close>

definition addSource :: "string \<Rightarrow> string \<Rightarrow> Source list \<Rightarrow> Source list" where
  "addSource p d srcs =
     srcs @ [\<lparr>src_id = word_of_nat (length srcs), src_path = p, src_data = d, token_buffer = TokenBuffer_new\<rparr>]"

definition getSource :: "Source list \<Rightarrow> SourceID \<Rightarrow> Source option" where
  "getSource srcs i = (if unat i < length srcs then Some (srcs ! unat i) else None)"

definition reserveSources :: "nat \<Rightarrow> Source list \<Rightarrow> Source list" where
  "reserveSources n srcs = srcs"

text \<open>
  \<^verbatim>\<open>emit_diagnostic_impl\<close> (lines 182-186) calls the callback once with the driver and the
  diagnostic; the callback receives the driver as \<^verbatim>\<open>const Context&\<close>.
\<close>

definition emit_diagnostic_impl :: "Diagnostic \<Rightarrow> Context \<Rightarrow> Context" where
  "emit_diagnostic_impl d c = c\<lparr>emitted := emitted c @ [d]\<rparr>"

text \<open>
  Modelled from the spec: \<^verbatim>\<open>emit_diagnostic_internal\<close> and \<^verbatim>\<open>emitTrace\<close> are declared in
  \<^verbatim>\<open>Context.h\<close>, which is not among the sources. The spec, section 4.3:
  \<open>raise_fail_condition\<close> sets \<open>hit_fail_condition\<close> and, if the driver is multi-threaded,
  spawns a detached helper that shuts the pool down; \<open>emit_internal(level, code, loc, msg)\<close>
  delivers the diagnostic and also increments \<open>num_errors\<close> when the level is Fatal or Error
  and, on reaching the ceiling, raises the fail condition. Section 8.2: each Fatal or Error
  emitted through it raises \<open>num_errors\<close> by exactly one. \<^verbatim>\<open>emitTrace\<close> records its message.
\<close>

definition raise_fail_condition :: "Context \<Rightarrow> Context" where
  "raise_fail_condition c =
     (let c1 = c\<lparr>hit_fail_condition := True\<rparr>
      in if isMultiThreaded c1 then c1\<lparr>shutdown_helpers := shutdown_helpers c1 + 1\<rparr> else c1)"

definition emit_diagnostic_internal :: "Level \<Rightarrow> Code \<Rightarrow> Location option \<Rightarrow> string \<Rightarrow> Context \<Rightarrow> Context" where
  "emit_diagnostic_internal lvl cd loc msg c =
     (let c1 = emit_diagnostic_impl
                 \<lparr>diag_level = lvl, diag_code = cd, diag_location = loc, diag_message = msg,
                  diag_infos = []\<rparr> c
      in if lvl = Fatal \<or> lvl = Error then
           (let c2 = c1\<lparr>num_errors := num_errors c1 + 1\<rparr>
            in if maxNumErrors (config c2) \<le> num_errors c2 then raise_fail_condition c2 else c2)
         else c1)"

definition emitTrace :: "string \<Rightarrow> Context \<Rightarrow> Context" where
  "emitTrace msg c = c\<lparr>traces := traces c @ [msg]\<rparr>"

text \<open>\<^verbatim>\<open>notify_task_errored\<close> (lines 189-201).\<close>

definition notify_task_errored :: "Context \<Rightarrow> Context" where
  "notify_task_errored c =
     (let c1 = (if num_errors c \<ge> maxNumErrors (config c) then c\<lparr>hit_fail_condition := True\<rparr> else c)
      in if hasHitFailCondition c1 \<and> isMultiThreaded c1
         then c1\<lparr>shutdown_helpers := shutdown_helpers c1 + 1\<rparr>
         else c1)"

text \<open>
  \<^verbatim>\<open>Worker::run_load_file\<close> (lines 284-323): the success flag and the driver afterwards. Each
  failure branch increments \<open>num_errors\<close> itself (lines 286, 299, 310) and then calls
  \<^verbatim>\<open>emit_diagnostic_internal\<close> with an Error.
\<close>

definition run_load_file :: "externals \<Rightarrow> string \<Rightarrow> Context \<Rightarrow> bool \<times> Context" where
  "run_load_file ext p c =
     (if fs_exists ext p = False then
        (False, emit_diagnostic_internal Error MiscFileDoesNotExist None
                  (''File '' @ [dquote_char] @ p @ [dquote_char] @ '' does not exist'')
                  (c\<lparr>num_errors := num_errors c + 1\<rparr>))
      else if fs_open ext p = False then
        (False, emit_diagnostic_internal Error MiscLoadFileFailed None
                  (''Failed to load file: '' @ [dquote_char] @ p @ [dquote_char])
                  (c\<lparr>num_errors := num_errors c + 1\<rparr>))
      else
        (case fs_read ext p of
           None \<Rightarrow>
             (False, emit_diagnostic_internal Error MiscLoadFileFailed None
                       (''Failed to load file: '' @ [dquote_char] @ p @ [dquote_char])
                       (c\<lparr>num_errors := num_errors c + 1\<rparr>))
         | Some d \<Rightarrow>
             (let c1 = emitTrace (''Loaded file: '' @ [dquote_char] @ p @ [dquote_char]) c
              in (True, c1\<lparr>sources := addSource p d (sources c1)\<rparr>))))"

text \<open>
  \<^verbatim>\<open>Worker::run_tokenize_file\<close> (lines 327-339). On a tokenizer error the handler returns
  false and adds nothing of its own. On success the buffer is constructed in place over the
  source's slot; a source id that is not registered is a contract violation. The trace names
  the source by its path.
\<close>

definition run_tokenize_file :: "externals \<Rightarrow> SourceID \<Rightarrow> Context \<Rightarrow> error + (bool \<times> Context)" where
  "run_tokenize_file ext sid c =
     (let out = tokenize ext c sid;
          c1 = c\<lparr>num_errors := num_errors c + tk_counted_errors out,
                 hit_fail_condition := (hit_fail_condition c \<or> tk_raised_fail out),
                 emitted := emitted c @ tk_emitted out\<rparr>
      in case tk_result out of
           None \<Rightarrow> Inr (False, c1)
         | Some tb \<Rightarrow>
             (case getSource (sources c1) sid of
                None \<Rightarrow> Inl SourceOutOfRange
              | Some source \<Rightarrow>
                  Inr (True,
                       emitTrace (''Tokenized file: '' @ [dquote_char] @ src_path source @ [dquote_char])
                         (c1\<lparr>sources := (sources c1)[unat sid := source\<lparr>token_buffer := tb\<rparr>]\<rparr>))))"

text \<open>\<^verbatim>\<open>Worker::run_task\<close> (lines 269-280).\<close>

definition run_task :: "externals \<Rightarrow> Task \<Rightarrow> Context \<Rightarrow> error + Context" where
  "run_task ext task c =
     (case (case task of
              LoadFileTask p \<Rightarrow> Inr (run_load_file ext p c)
            | TokenizeFileTask sid \<Rightarrow> run_tokenize_file ext sid c) of
        Inl e \<Rightarrow> Inl e
      | Inr (run_task_res, c1) \<Rightarrow>
          Inr (if run_task_res = False then notify_task_errored c1 else c1))"

text \<open>\<^verbatim>\<open>Worker::get_task_single_threaded\<close> (lines 254-266).\<close>

definition get_task_single_threaded :: "externals \<Rightarrow> Worker \<Rightarrow> Context \<Rightarrow> error + (Worker \<times> Context)" where
  "get_task_single_threaded ext w c =
     (if \<not> isSingleThreaded c then
        Inl (AssertionFailed ''Context is not set to be single-threaded'')
      else
        (case tasks c of
           [] \<Rightarrow> Inr (w\<lparr>is_working := False\<rparr>, c)
         | task # rest \<Rightarrow>
             (case run_task ext task (c\<lparr>tasks := rest\<rparr>) of
                Inl e \<Rightarrow> Inl e
              | Inr c1 \<Rightarrow> Inr (w\<lparr>is_working := False\<rparr>, c1))))"

text \<open>
  \<^verbatim>\<open>consume_tasks_single_threaded\<close> (lines 204-214). \<open>consume_loop\<close> is its \<^verbatim>\<open>while\<close>
  loop, run by a local worker; the queue gets shorter with every iteration.
\<close>

function consume_loop :: "externals \<Rightarrow> Worker \<Rightarrow> Context \<Rightarrow> error + Context" where
  "consume_loop ext w c =
     (if tasks c \<noteq> [] \<and> hasHitFailCondition c = False then
        (case get_task_single_threaded ext w c of
           Inl e \<Rightarrow> Inl e
         | Inr (w', c') \<Rightarrow> consume_loop ext w' c')
      else Inr c)"
  by pat_completeness auto
termination
  by (relation "measure (\<lambda>(ext, w, c). length (tasks c))")
     (auto simp: get_task_single_threaded_def run_task_def run_load_file_def run_tokenize_file_def
        notify_task_errored_def emit_diagnostic_internal_def raise_fail_condition_def
        emit_diagnostic_impl_def emitTrace_def Let_def
      split: if_splits list.splits sum.splits Task.splits option.splits prod.splits)

declare consume_loop.simps [simp del]

definition consume_tasks_single_threaded :: "externals \<Rightarrow> Context \<Rightarrow> error + Context" where
  "consume_tasks_single_threaded ext c =
     (if \<not> isSingleThreaded c then
        Inl (AssertionFailed ''Context is not set to be single threaded'')
      else
        (case consume_loop ext \<lparr>is_working = False\<rparr> c of
           Inl e \<Rightarrow> Inl e
         | Inr c' \<Rightarrow> Inr (c'\<lparr>task_group_running := False\<rparr>)))"

text \<open>
  \<^verbatim>\<open>loadFiles\<close> (lines 137-158) and \<^verbatim>\<open>tokenizeLoadedFiles\<close> (lines 161-177). The part of each
  between its assertions and the drain is a definition of its own. With a worker pool the
  function returns once the tasks are queued; the pool itself is not part of this model.
\<close>

definition loadFiles_enqueue :: "string list \<Rightarrow> Context \<Rightarrow> Context" where
  "loadFiles_enqueue file_paths c =
     (let c1 = c\<lparr>task_group_running := True\<rparr>;
          c2 = c1\<lparr>sources := reserveSources (length file_paths) (sources c1)\<rparr>
      in c2\<lparr>tasks := tasks c2 @ map LoadFileTask file_paths\<rparr>)"

definition loadFiles :: "externals \<Rightarrow> string list \<Rightarrow> Context \<Rightarrow> error + Context" where
  "loadFiles ext file_paths c =
     (if \<not> (isSingleThreaded c \<or> threadsRunning c = Inr True) then
        Inl (AssertionFailed ''Context is set to be multi-threaded, but threads are not running'')
      else if task_group_running c \<noteq> False then
        Inl (AssertionFailed ''Task group already running'')
      else
        (let c1 = loadFiles_enqueue file_paths c
         in if isSingleThreaded c1 then consume_tasks_single_threaded ext c1 else Inr c1))"

definition tokenizeLoadedFiles_enqueue :: "Context \<Rightarrow> Context" where
  "tokenizeLoadedFiles_enqueue c =
     (let c1 = c\<lparr>task_group_running := True\<rparr>
      in c1\<lparr>tasks := tasks c1 @ map (\<lambda>source. TokenizeFileTask (src_id source)) (sources c1)\<rparr>)"

definition tokenizeLoadedFiles :: "externals \<Rightarrow> Context \<Rightarrow> error + Context" where
  "tokenizeLoadedFiles ext c =
     (if task_group_running c \<noteq> False then
        Inl (AssertionFailed ''Task group already running'')
      else
        (let c1 = tokenizeLoadedFiles_enqueue c
         in if isSingleThreaded c1 then consume_tasks_single_threaded ext c1 else Inr c1))"

subsection \<open>Runs and the states they pass through\<close>








subsection \<open>Failed tasks\<close>



subsection \<open>A deterministic tokenizer\<close>

text \<open>
  The tokenizer is a function of the source bytes: whatever the driver's state, its result for
  a registered source is \<open>f\<close> of that source's data.
\<close>

definition tokenizer_deterministic :: "externals \<Rightarrow> (string \<Rightarrow> TokenBuffer option) \<Rightarrow> bool" where
  "tokenizer_deterministic ext f =
     (\<forall>c sid s. getSource (sources c) sid = Some s \<longrightarrow> tk_result (tokenize ext c sid) = f (src_data s))"

section \<open>The default diagnostic callback\<close>






section \<open>Example inputs\<close>


definition example_source :: Source where
  "example_source =
     \<lparr>src_id = 0, src_path = ''t.x'',
      src_data = ''abc'' @ [newline_char] @ ''  xyz'' @ [newline_char],
      token_buffer = TokenBuffer_new\<rparr>"


text \<open>
  Collaborators for the examples: a disk on which only \<^verbatim>\<open>exists.x\<close> exists (and reads as
  \<^verbatim>\<open>abc\<close>), and a tokenizer that rejects every source: it emits one Error, which the driver
  counts and which raises the fail condition when the count reaches the ceiling, and returns
  an error.
\<close>

definition reporting_tokenizer :: "Context \<Rightarrow> SourceID \<Rightarrow> tokenize_outcome" where
  "reporting_tokenizer c sid =
     \<lparr>tk_counted_errors = 1,
      tk_raised_fail = (maxNumErrors (config c) \<le> num_errors c + 1),
      tk_emitted = [\<lparr>diag_level = Error, diag_code = OtherCode 0, diag_location = None,
                     diag_message = ''unrecognized character'', diag_infos = []\<rparr>],
      tk_result = None\<rparr>"

definition example_externals :: externals where
  "example_externals =
     \<lparr>fs_exists = (\<lambda>p. p = ''exists.x''), fs_open = (\<lambda>p. p = ''exists.x''),
      fs_read = (\<lambda>p. if p = ''exists.x'' then Some ''abc'' else None),
      tokenize = reporting_tokenizer\<rparr>"

definition example_context :: Context where
  "example_context =
     \<lparr>config = \<lparr>numThreads = 0, maxNumErrors = 10\<rparr>, workers = [],
      shutting_down_threads = False, tasks = [], sources = [example_source], num_errors = 0,
      hit_fail_condition = False, task_group_running = False, shutdown_helpers = 0,
      emitted = [], traces = []\<rparr>"

text \<open>
  A driver as it is before its first stage, with an error ceiling of 10; a disk holding
  \<^verbatim>\<open>a.x\<close> and \<^verbatim>\<open>b.x\<close>; the source that \<^verbatim>\<open>addSource\<close> registers for the path with a given
  index; and the diagnostic that \<^verbatim>\<open>run_load_file\<close> emits for a path that does not exist.
\<close>

definition fresh_context :: Context where
  "fresh_context =
     \<lparr>config = \<lparr>numThreads = 0, maxNumErrors = 10\<rparr>, workers = [],
      shutting_down_threads = False, tasks = [], sources = [], num_errors = 0,
      hit_fail_condition = False, task_group_running = False, shutdown_helpers = 0,
      emitted = [], traces = []\<rparr>"

definition two_files :: externals where
  "two_files =
     \<lparr>fs_exists = (\<lambda>p. p = ''a.x'' \<or> p = ''b.x''), fs_open = (\<lambda>p. p = ''a.x'' \<or> p = ''b.x''),
      fs_read = (\<lambda>p. if p = ''a.x'' \<or> p = ''b.x'' then Some ''abc'' else None),
      tokenize = reporting_tokenizer\<rparr>"

definition mk_source :: "externals \<Rightarrow> nat \<times> string \<Rightarrow> Source" where
  "mk_source ext ip = \<lparr>src_id = word_of_nat (fst ip), src_path = snd ip,
      src_data = the (fs_read ext (snd ip)), token_buffer = TokenBuffer_new\<rparr>"



text \<open>
  A tokenizer that succeeds on every source, with one token per byte and a locked buffer, and
  collaborators that use it.
\<close>

definition byte_tokenizer :: "string \<Rightarrow> TokenBuffer option" where
  "byte_tokenizer d =
     Some \<lparr>tokens = map (\<lambda>ch. \<lparr>tok_kind = of_char ch,
                                 tok_location = \<lparr>sourceID = 0, lineStart = 1, collumnStart = 1,
                                                 lineEnd = 1, collumnEnd = 1\<rparr>,
                                 tok_payload = NoPayload\<rparr>) d,
           string_literals = [], is_locked = True\<rparr>"

definition tokenizing_externals :: externals where
  "tokenizing_externals =
     \<lparr>fs_exists = (\<lambda>p. False), fs_open = (\<lambda>p. False), fs_read = (\<lambda>p. None),
      tokenize = (\<lambda>c sid. \<lparr>tk_counted_errors = 0, tk_raised_fail = False, tk_emitted = [],
                            tk_result = (case getSource (sources c) sid of
                                           None \<Rightarrow> None
                                         | Some s \<Rightarrow> byte_tokenizer (src_data s))\<rparr>)\<rparr>"

section \<open>Properties of the renderer\<close>

lemmas char_defs = tab_char_def newline_char_def cr_char_def space_char_def nul_char_def dquote_char_def

lemma replicate_3: "replicate 3 x = [x, x, x]"
  by (simp add: numeral_3_eq_3)

lemma byte_at_newline_in_range: "byte_at d i = newline_char \<Longrightarrow> i < length d"
  by (simp add: byte_at_def char_defs split: if_splits)

subsection \<open>The scans stay within the data and its terminator\<close>

lemma find_line_reads:
  "find_line d ls cursor cl rd = (rd', r) \<Longrightarrow> cursor \<le> length d \<Longrightarrow> \<forall>i\<in>set rd. i \<le> length d
   \<Longrightarrow> (\<forall>i\<in>set rd'. i \<le> length d) \<and> (\<forall>c. r = Inr c \<longrightarrow> c \<le> length d)"
proof (induction d ls cursor cl rd rule: find_line.induct)
  case (1 d ls cursor cl rd)
  note eq = "1.prems"(1) and rd = "1.prems"(3)
  show ?case
  proof (cases "cl < ls")
    case False
    with eq "1.prems"(2) rd show ?thesis
      by (subst (asm) find_line.simps) auto
  next
    case run: True
    show ?thesis
    proof (cases "cursor < length d")
      case False
      with run eq rd show ?thesis
        by (subst (asm) find_line.simps) auto
    next
      case inb: True
      then have nn: "\<not> \<not> cursor < length d" by simp
      from inb have le1: "cursor + 1 \<le> length d" by simp
      from inb rd have rd1: "\<forall>i\<in>set (rd @ [cursor]). i \<le> length d" by auto
      from inb rd have rd2: "\<forall>i\<in>set (rd @ [cursor, cursor + 1]). i \<le> length d" by auto
      show ?thesis
      proof (cases "byte_at d cursor = newline_char")
        case nl: True
        from eq run inb nl have "find_line d ls (cursor + 1) (cl + 1) (rd @ [cursor]) = (rd', r)"
          by (subst (asm) find_line.simps) simp
        then show ?thesis
          by (rule "1.IH"(1)[OF run nn nl _ le1 rd1])
      next
        case nonl: False
        show ?thesis
        proof (cases "byte_at d cursor = cr_char")
          case cr: True
          show ?thesis
          proof (cases "byte_at d (cursor + 1) = newline_char")
            case crlf: True
            from eq run inb nonl cr crlf
            have "find_line d ls (cursor + 1 + 1) (cl + 1) (rd @ [cursor, cursor + 1]) = (rd', r)"
              by (subst (asm) find_line.simps) simp
            moreover from byte_at_newline_in_range[OF crlf] have "cursor + 1 + 1 \<le> length d" by simp
            ultimately show ?thesis
              by (rule "1.IH"(2)[OF run nn nonl cr crlf _ _ rd2])
          next
            case lone: False
            from eq run inb nonl cr lone
            have "find_line d ls (cursor + 1) (cl + 1) (rd @ [cursor, cursor + 1]) = (rd', r)"
              by (subst (asm) find_line.simps) simp
            then show ?thesis
              by (rule "1.IH"(3)[OF run nn nonl cr lone _ le1 rd2])
          qed
        next
          case other: False
          from eq run inb nonl other
          have "find_line d ls (cursor + 1) cl (rd @ [cursor]) = (rd', r)"
            by (subst (asm) find_line.simps) simp
          then show ?thesis
            by (rule "1.IH"(4)[OF run nn nonl other _ le1 rd1])
        qed
      qed
    qed
  qed
qed

lemma get_line_reads:
  "get_line d cursor ls pc rw rd = (rd', l, pc') \<Longrightarrow> cursor \<le> length d \<Longrightarrow> \<forall>i\<in>set rd. i \<le> length d
   \<Longrightarrow> \<forall>i\<in>set rd'. i \<le> length d"
proof (induction d cursor ls pc rw rd rule: get_line.induct)
  case (1 d cursor ls pc rw rd)
  note eq = "1.prems"(1) and le = "1.prems"(2) and rd = "1.prems"(3)
  let ?go = "byte_at d cursor \<noteq> newline_char \<and> byte_at d cursor \<noteq> cr_char \<and> cursor < length d"
  show ?case
  proof (cases ?go)
    case False
    with eq have "rd' = rd @ [cursor]"
      by (subst (asm) get_line.simps) auto
    with le rd show ?thesis by auto
  next
    case go: True
    from go le rd have rd1: "\<forall>i\<in>set (rd @ [cursor]). i \<le> length d" by auto
    from go have le1: "cursor + 1 \<le> length d" by simp
    show ?thesis
    proof (cases "rw \<and> (byte_at d cursor = tab_char \<or> byte_at d cursor = space_char)")
      case ws: True
      from eq go ws have "get_line d (cursor + 1) ls (pc - 1) rw (rd @ [cursor]) = (rd', l, pc')"
        by (subst (asm) get_line.simps) simp
      then show ?thesis by (rule "1.IH"(1)[OF go ws _ le1 rd1])
    next
      case nows: False
      from eq go nows
      have "get_line d (cursor + 1) (ls @ [byte_at d cursor]) pc False (rd @ [cursor]) = (rd', l, pc')"
        by (subst (asm) get_line.simps) auto
      then show ?thesis by (rule "1.IH"(2)[OF go nows _ le1 rd1])
    qed
  qed
qed

lemma print_location_accessed_le_size:
  "\<forall>i\<in>set (accessed (print_location env source lvl location)). i \<le> length (src_data source)"
proof -
  obtain rd r where fl: "find_line (src_data source) (unat (lineStart location)) 0 1 [] = (rd, r)"
    by (cases "find_line (src_data source) (unat (lineStart location)) 0 1 []") auto
  have "(\<forall>i\<in>set rd. i \<le> length (src_data source)) \<and> (\<forall>c. r = Inr c \<longrightarrow> c \<le> length (src_data source))"
    by (rule find_line_reads[OF fl]) simp_all
  then have rd: "\<forall>i\<in>set rd. i \<le> length (src_data source)"
    and r: "\<And>c. r = Inr c \<Longrightarrow> c \<le> length (src_data source)" by blast+
  show ?thesis
  proof (cases r)
    case (Inl e)
    with fl rd show ?thesis by (simp add: print_location_def Let_def)
  next
    case (Inr cursor)
    obtain rd' l pc
      where gl: "get_line (src_data source) cursor [] (ucast (collumnStart location)) True rd = (rd', l, pc)"
      by (cases "get_line (src_data source) cursor [] (ucast (collumnStart location)) True rd") auto
    have "\<forall>i\<in>set rd'. i \<le> length (src_data source)"
      by (rule get_line_reads[OF gl r[OF Inr] rd])
    with fl Inr gl show ?thesis
      by (simp add: print_location_def Let_def)
  qed
qed

text \<open>
  C9. The claim: whenever the location's line exists, \<^verbatim>\<open>print_location\<close> subscripts the source
  data only at indices strictly below its size, also when the line is the last one of a source
  without a final line terminator and when a carriage return is the last byte. The code does
  otherwise at both inputs: for the data \<^verbatim>\<open>abc\<close> and line 1 the second loop subscripts index
  3, the size, before it tests \<^verbatim>\<open>cursor < size\<close>; for the data \<^verbatim>\<open>a\r\<close> and line 2 the first
  loop subscripts \<^verbatim>\<open>cursor + 1\<close> = 2, the size, to look for a line feed.
\<close>

theorem print_location_reads_at_size:
  "accessed (print_location env \<lparr>src_id = i, src_path = p, src_data = ''abc'', token_buffer = tb\<rparr> lvl
      \<lparr>sourceID = i, lineStart = 1, collumnStart = 1, lineEnd = 1, collumnEnd = 1\<rparr>) = [0, 1, 2, 3]
   \<and> length ''abc'' = 3
   \<and> accessed (print_location env \<lparr>src_id = i, src_path = p, src_data = ''a'' @ [cr_char], token_buffer = tb\<rparr> lvl
      \<lparr>sourceID = i, lineStart = 2, collumnStart = 1, lineEnd = 2, collumnEnd = 1\<rparr>) = [0, 1, 2, 2]
   \<and> length (''a'' @ [cr_char]) = 2"
  by (simp add: print_location_def Let_def find_line.simps get_line.simps byte_at_def char_defs
        pointer_fits_def loop_count_def)

subsection \<open>The line-span scenario\<close>

text \<open>
  C6. For the source data \<^verbatim>\<open>abc\n  xyz\n\<close> and a location at line 2, columns 3 to 5, the
  renderer collects the line \<^verbatim>\<open>xyz\<close> with the caret column moved from 3 to 1, the pointer
  line is three carets with no indentation, and the whole rendering is the location line, the
  source line, the gutter and the pointer line.
\<close>

theorem print_location_line_span:
  "get_line (''abc'' @ [newline_char] @ ''  xyz'' @ [newline_char]) 4 [] 3 True rd
     = (rd @ [4, 5, 6, 7, 8, 9], ''xyz'', 1)
   \<and> pointer_str \<lparr>sourceID = i, lineStart = 2, collumnStart = 3, lineEnd = 2, collumnEnd = 5\<rparr> ''xyz'' 1
     = ''^^^'' @ [newline_char]
   \<and> print_location env
       \<lparr>src_id = i, src_path = p, src_data = ''abc'' @ [newline_char] @ ''  xyz'' @ [newline_char],
        token_buffer = tb\<rparr>
       lvl \<lparr>sourceID = i, lineStart = 2, collumnStart = 3, lineEnd = 2, collumnEnd = 5\<rparr>
     = \<lparr>printed =
          [printGray (tab_char
             # getLocationAsString env
                 \<lparr>src_id = i, src_path = p,
                  src_data = ''abc'' @ [newline_char] @ ''  xyz'' @ [newline_char], token_buffer = tb\<rparr>
             @ '':2:3'' @ [newline_char]),
           printGray (tab_char # ''2 | xyz'' @ [newline_char]),
           printGray (tab_char # ''  | ''),
           print_pointer lvl (''^^^'' @ [newline_char])],
        accessed = [0, 1, 2, 3, 4, 5, 6, 7, 8, 9], failure = None\<rparr>"
  by (simp add: print_location_def find_line.simps get_line.simps byte_at_def char_defs
        pointer_str_def pointer_fits_def loop_count_def to_string.simps digit_char_def replicate_3)

subsection \<open>A caret column within the leading blanks\<close>

text \<open>
  For the data \<^verbatim>\<open>  xyz\<close> and a location at line 1, column 1, the two leading blanks take
  \<open>point_collumn\<close> from 1 below 0: the location line, the source line and the gutter are
  printed, and the rendering stops before the pointer line.
\<close>

lemma print_location_caret_in_blanks:
  "print_location env \<lparr>src_id = i, src_path = p, src_data = ''  xyz'', token_buffer = tb\<rparr> lvl
     \<lparr>sourceID = i, lineStart = 1, collumnStart = 1, lineEnd = 1, collumnEnd = 1\<rparr>
   = \<lparr>printed =
        [printGray (tab_char
           # getLocationAsString env \<lparr>src_id = i, src_path = p, src_data = ''  xyz'', token_buffer = tb\<rparr>
           @ '':1:1'' @ [newline_char]),
         printGray (tab_char # ''1 | xyz'' @ [newline_char]),
         printGray (tab_char # ''  | '')],
      accessed = [0, 1, 2, 3, 4, 5], failure = Some LengthError\<rparr>"
  by (simp add: print_location_def find_line.simps get_line.simps byte_at_def char_defs
        pointer_fits_def loop_count_def to_string.simps digit_char_def word_gt_0)

subsection \<open>The header of the default callback\<close>





section \<open>Properties of the token buffer\<close>

lemma createToken_locked: "is_locked tb \<Longrightarrow> createToken k loc p tb = Inl BufferLocked"
  by (simp add: createToken_def)

lemma apply_buffer_op_locked: "is_locked tb \<Longrightarrow> apply_buffer_op tb bop = tb"
  by (cases bop) (simp_all add: createToken_def lock_def)

lemma apply_buffer_ops_locked: "is_locked tb \<Longrightarrow> apply_buffer_ops tb ops = tb"
  unfolding apply_buffer_ops_def
  by (induction ops) (simp_all add: apply_buffer_op_locked)

text \<open>
  C7. Once \<^verbatim>\<open>lock()\<close> has been called on a buffer, whatever sequence of \<^verbatim>\<open>createToken\<close> and
  \<^verbatim>\<open>lock\<close> calls follows, the buffer stays locked, its tokens and string literals are those
  it held when it was locked, and a further \<^verbatim>\<open>createToken\<close> fails with \<open>BufferLocked\<close>.
\<close>

theorem lock_is_final:
  "is_locked (apply_buffer_ops (lock tb) ops)
   \<and> tokens (apply_buffer_ops (lock tb) ops) = tokens tb
   \<and> string_literals (apply_buffer_ops (lock tb) ops) = string_literals tb
   \<and> createToken k loc p (apply_buffer_ops (lock tb) ops) = Inl BufferLocked"
proof -
  have "is_locked (lock tb)" by (simp add: lock_def)
  then have "apply_buffer_ops (lock tb) ops = lock tb" by (rule apply_buffer_ops_locked)
  then show ?thesis by (simp add: lock_def createToken_def)
qed

section \<open>Properties of the driver\<close>

subsection \<open>Task handlers\<close>


lemma run_load_file_loaded:
  "fs_exists ext p \<Longrightarrow> fs_open ext p \<Longrightarrow> fs_read ext p = Some d \<Longrightarrow>
   run_load_file ext p c =
     (True, c\<lparr>traces := traces c @ [''Loaded file: '' @ [dquote_char] @ p @ [dquote_char]],
              sources := addSource p d (sources c)\<rparr>)"
  by (simp add: run_load_file_def emitTrace_def Let_def)







subsection \<open>The single-threaded drain\<close>

lemma consume_loop_done:
  "tasks c = [] \<or> hit_fail_condition c \<Longrightarrow> consume_loop ext w c = Inr c"
  by (subst consume_loop.simps) (auto simp: hasHitFailCondition_def)

lemma consume_loop_step:
  "tasks c = t # rest \<Longrightarrow> \<not> hit_fail_condition c \<Longrightarrow> isSingleThreaded c \<Longrightarrow>
   run_task ext t (c\<lparr>tasks := rest\<rparr>) = Inr c1 \<Longrightarrow>
   consume_loop ext w c = consume_loop ext (w\<lparr>is_working := False\<rparr>) c1"
  by (subst consume_loop.simps) (simp add: hasHitFailCondition_def get_task_single_threaded_def)

lemma run_load_file_frame:
  "run_load_file ext p c = (ok, c1) \<Longrightarrow>
   tasks c1 = tasks c \<and> config c1 = config c \<and> task_group_running c1 = task_group_running c
   \<and> length (sources c) \<le> length (sources c1)"
  by (auto simp: run_load_file_def emit_diagnostic_internal_def raise_fail_condition_def
        emit_diagnostic_impl_def emitTrace_def addSource_def Let_def
      split: if_splits option.splits)

lemma run_tokenize_file_frame:
  "run_tokenize_file ext sid c = Inr (ok, c1) \<Longrightarrow>
   tasks c1 = tasks c \<and> config c1 = config c \<and> task_group_running c1 = task_group_running c
   \<and> length (sources c1) = length (sources c)"
  by (auto simp: run_tokenize_file_def emitTrace_def Let_def split: option.splits)

lemma notify_task_errored_frame:
  "tasks (notify_task_errored c) = tasks c \<and> config (notify_task_errored c) = config c
   \<and> task_group_running (notify_task_errored c) = task_group_running c
   \<and> sources (notify_task_errored c) = sources c"
  by (simp add: notify_task_errored_def Let_def)

lemma run_task_frame:
  "run_task ext t c = Inr c1 \<Longrightarrow>
   tasks c1 = tasks c \<and> config c1 = config c \<and> task_group_running c1 = task_group_running c
   \<and> length (sources c) \<le> length (sources c1)"
proof (cases t)
  case (LoadFileTask p)
  assume r: "run_task ext t c = Inr c1"
  obtain ok c0 where l: "run_load_file ext p c = (ok, c0)" by (cases "run_load_file ext p c") auto
  from r LoadFileTask l have "c1 = (if ok = False then notify_task_errored c0 else c0)"
    by (simp add: run_task_def)
  with run_load_file_frame[OF l] show ?thesis
    by (simp add: notify_task_errored_frame)
next
  case (TokenizeFileTask sid)
  assume r: "run_task ext t c = Inr c1"
  with TokenizeFileTask obtain ok c0 where l: "run_tokenize_file ext sid c = Inr (ok, c0)"
    and c1: "c1 = (if ok = False then notify_task_errored c0 else c0)"
    by (auto simp: run_task_def split: sum.splits)
  with run_tokenize_file_frame[OF l] show ?thesis
    by (simp add: notify_task_errored_frame)
qed

lemma run_task_defined:
  "(\<And>sid. t = TokenizeFileTask sid \<Longrightarrow> unat sid < length (sources c)) \<Longrightarrow> \<exists>c1. run_task ext t c = Inr c1"
  by (cases t)
     (auto simp: run_task_def run_tokenize_file_def getSource_def Let_def
           split: prod.splits option.splits)

lemma consume_loop_returns:
  "isSingleThreaded c \<Longrightarrow> \<forall>sid. TokenizeFileTask sid \<in> set (tasks c) \<longrightarrow> unat sid < length (sources c)
   \<Longrightarrow> \<exists>c'. consume_loop ext w c = Inr c' \<and> (tasks c' = [] \<or> hit_fail_condition c')
          \<and> task_group_running c' = task_group_running c"
proof (induction "length (tasks c)" arbitrary: c w)
  case 0
  then show ?case by (simp add: consume_loop_done)
next
  case (Suc n)
  then obtain t rest where ts: "tasks c = t # rest" by (cases "tasks c") auto
  show ?case
  proof (cases "hit_fail_condition c")
    case True
    then show ?thesis by (simp add: consume_loop_done)
  next
    case False
    have "\<exists>c1. run_task ext t (c\<lparr>tasks := rest\<rparr>) = Inr c1"
      using Suc.prems(2) ts by (intro run_task_defined) simp
    then obtain c1 where rt: "run_task ext t (c\<lparr>tasks := rest\<rparr>) = Inr c1" ..
    from run_task_frame[OF rt]
    have fr: "tasks c1 = rest" "config c1 = config c" "task_group_running c1 = task_group_running c"
      "length (sources c) \<le> length (sources c1)" by simp_all
    have len: "n = length (tasks c1)" using Suc.hyps(2) ts fr by simp
    have single: "isSingleThreaded c1" using Suc.prems(1) fr by (simp add: isSingleThreaded_def)
    have valid: "\<forall>sid. TokenizeFileTask sid \<in> set (tasks c1) \<longrightarrow> unat sid < length (sources c1)"
      using Suc.prems(2) ts fr by auto
    from Suc.hyps(1)[OF len single valid, of "w\<lparr>is_working := False\<rparr>"]
    show ?thesis
      using consume_loop_step[OF ts False Suc.prems(1) rt, of w] fr by simp
  qed
qed


text \<open>
  C5. In single-threaded mode, with every queued TokenizeFile task naming a registered source,
  the drain returns; on return the queue is empty or the fail condition is set, and
  \<open>task_group_running\<close> is false. Each iteration removes exactly the head of the queue.
\<close>

theorem single_threaded_drain_terminates:
  assumes "isSingleThreaded c"
    and "\<forall>sid. TokenizeFileTask sid \<in> set (tasks c) \<longrightarrow> unat sid < length (sources c)"
  shows "(\<exists>c'. consume_tasks_single_threaded ext c = Inr c'
            \<and> (tasks c' = [] \<or> hit_fail_condition c') \<and> task_group_running c' = False)
       \<and> (\<forall>w t rest. tasks c = t # rest \<longrightarrow>
            (\<exists>w' c1. get_task_single_threaded ext w c = Inr (w', c1) \<and> tasks c1 = rest))"
proof
  from consume_loop_returns[OF assms, of ext "\<lparr>is_working = False\<rparr>"]
  obtain c' where "consume_loop ext \<lparr>is_working = False\<rparr> c = Inr c'"
    "tasks c' = [] \<or> hit_fail_condition c'" by blast
  with assms(1) show "\<exists>c'. consume_tasks_single_threaded ext c = Inr c'
            \<and> (tasks c' = [] \<or> hit_fail_condition c') \<and> task_group_running c' = False"
    by (simp add: consume_tasks_single_threaded_def)
next
  show "\<forall>w t rest. tasks c = t # rest \<longrightarrow>
            (\<exists>w' c1. get_task_single_threaded ext w c = Inr (w', c1) \<and> tasks c1 = rest)"
  proof (intro allI impI)
    fix w t rest assume ts: "tasks c = t # rest"
    have "\<exists>c1. run_task ext t (c\<lparr>tasks := rest\<rparr>) = Inr c1"
      using assms(2) ts by (intro run_task_defined) simp
    then obtain c1 where rt: "run_task ext t (c\<lparr>tasks := rest\<rparr>) = Inr c1" ..
    from run_task_frame[OF rt] have "tasks c1 = rest" by simp
    with rt ts assms(1) show "\<exists>w' c1. get_task_single_threaded ext w c = Inr (w', c1) \<and> tasks c1 = rest"
      by (simp add: get_task_single_threaded_def)
  qed
qed

theorem single_threaded_drain_terminates_witness:
  "(\<exists>c'. consume_tasks_single_threaded example_externals
             (example_context\<lparr>tasks := [LoadFileTask ''missing.x'', TokenizeFileTask 0]\<rparr>) = Inr c'
        \<and> (tasks c' = [] \<or> hit_fail_condition c') \<and> task_group_running c' = False)
   \<and> (\<exists>w' c1. get_task_single_threaded example_externals \<lparr>is_working = True\<rparr>
             (example_context\<lparr>tasks := [LoadFileTask ''missing.x'', TokenizeFileTask 0]\<rparr>) = Inr (w', c1)
        \<and> tasks c1 = [TokenizeFileTask 0])"
proof -
  let ?c = "example_context\<lparr>tasks := [LoadFileTask ''missing.x'', TokenizeFileTask 0]\<rparr>"
  have single: "isSingleThreaded ?c" by (simp add: example_context_def isSingleThreaded_def)
  have valid: "\<forall>sid. TokenizeFileTask sid \<in> set (tasks ?c) \<longrightarrow> unat sid < length (sources ?c)"
    by (simp add: example_context_def)
  have ts: "tasks ?c = [LoadFileTask ''missing.x'', TokenizeFileTask 0]" by simp
  from single_threaded_drain_terminates[OF single valid, of example_externals] ts
  show ?thesis by blast
qed


subsection \<open>Loading files\<close>

lemma run_task_loaded:
  "fs_exists ext p \<Longrightarrow> fs_open ext p \<Longrightarrow> fs_read ext p = Some d \<Longrightarrow>
   run_task ext (LoadFileTask p) c =
     Inr (c\<lparr>traces := traces c @ [''Loaded file: '' @ [dquote_char] @ p @ [dquote_char]],
             sources := addSource p d (sources c)\<rparr>)"
  by (simp add: run_task_def run_load_file_loaded)

lemma consume_loop_loads:
  "isSingleThreaded c \<Longrightarrow> \<not> hit_fail_condition c \<Longrightarrow> tasks c = map LoadFileTask ps \<Longrightarrow>
   \<forall>p\<in>set ps. fs_exists ext p \<and> fs_open ext p \<and> fs_read ext p \<noteq> None \<Longrightarrow>
   \<exists>c'. consume_loop ext w c = Inr c' \<and> tasks c' = []
        \<and> sources c' = foldl (\<lambda>s p. addSource p (the (fs_read ext p)) s) (sources c) ps
        \<and> num_errors c' = num_errors c \<and> hit_fail_condition c' = False
        \<and> emitted c' = emitted c \<and> config c' = config c
        \<and> task_group_running c' = task_group_running c"
proof (induction ps arbitrary: c w)
  case Nil
  then show ?case by (simp add: consume_loop_done)
next
  case (Cons p ps)
  from Cons.prems(4) obtain d where p: "fs_exists ext p" "fs_open ext p" "fs_read ext p = Some d"
    by auto
  let ?c1 = "c\<lparr>tasks := map LoadFileTask ps,
              traces := traces c @ [''Loaded file: '' @ [dquote_char] @ p @ [dquote_char]],
              sources := addSource p d (sources c)\<rparr>"
  have ts: "tasks c = LoadFileTask p # map LoadFileTask ps" using Cons.prems(3) by simp
  have rt: "run_task ext (LoadFileTask p) (c\<lparr>tasks := map LoadFileTask ps\<rparr>) = Inr ?c1"
    by (simp add: run_task_loaded[OF p])
  have step: "consume_loop ext w c = consume_loop ext (w\<lparr>is_working := False\<rparr>) ?c1"
    by (rule consume_loop_step[OF ts Cons.prems(2) Cons.prems(1) rt])
  have "\<exists>c'. consume_loop ext (w\<lparr>is_working := False\<rparr>) ?c1 = Inr c' \<and> tasks c' = []
        \<and> sources c' = foldl (\<lambda>s p. addSource p (the (fs_read ext p)) s) (sources ?c1) ps
        \<and> num_errors c' = num_errors ?c1 \<and> hit_fail_condition c' = False
        \<and> emitted c' = emitted ?c1 \<and> config c' = config ?c1
        \<and> task_group_running c' = task_group_running ?c1"
    using Cons.prems by (intro Cons.IH) (simp_all add: isSingleThreaded_def)
  then show ?case using step p by simp
qed

lemma load_all_closed:
  "foldl (\<lambda>s p. addSource p (the (fs_read ext p)) s) srcs ps
     = srcs @ map (mk_source ext) (enumerate (length srcs) ps)"
  by (induction ps rule: rev_induct) (simp_all add: enumerate_append_eq addSource_def mk_source_def)

lemma unat_source_id: "k < 2 ^ 32 \<Longrightarrow> unat (word_of_nat k :: 32 word) = k"
  by (simp add: unat_of_nat)

lemma dense_ids_image:
  "\<forall>k<length xs. f (xs ! k) = k \<Longrightarrow> f ` set xs = {0..<length xs}"
  by (force simp: set_conv_nth image_iff)

lemma map_snd_enumerate_comp: "map (\<lambda>x. g (snd x)) (enumerate n ps) = map g ps"
  by (induction ps arbitrary: n) simp_all

lemma loadFiles_all_loaded:
  assumes single: "isSingleThreaded c" and nohit: "\<not> hit_fail_condition c"
    and idle: "tasks c = []" "task_group_running c = False"
    and ok: "\<forall>p\<in>set ps. fs_exists ext p \<and> fs_open ext p \<and> fs_read ext p \<noteq> None"
  shows "\<exists>c'. loadFiles ext ps c = Inr c'
      \<and> sources c' = sources c @ map (mk_source ext) (enumerate (length (sources c)) ps)
      \<and> num_errors c' = num_errors c \<and> hit_fail_condition c' = False
      \<and> task_group_running c' = False \<and> tasks c' = [] \<and> emitted c' = emitted c"
proof -
  let ?c1 = "loadFiles_enqueue ps c"
  have c1: "isSingleThreaded ?c1" "\<not> hit_fail_condition ?c1" "tasks ?c1 = map LoadFileTask ps"
    "sources ?c1 = sources c" "num_errors ?c1 = num_errors c" "emitted ?c1 = emitted c"
    using single nohit idle
    by (simp_all add: loadFiles_enqueue_def Let_def isSingleThreaded_def reserveSources_def)
  from consume_loop_loads[OF c1(1) c1(2) c1(3) ok, of "\<lparr>is_working = False\<rparr>"]
  obtain c' where c': "consume_loop ext \<lparr>is_working = False\<rparr> ?c1 = Inr c'" "tasks c' = []"
    "sources c' = foldl (\<lambda>s p. addSource p (the (fs_read ext p)) s) (sources ?c1) ps"
    "num_errors c' = num_errors ?c1" "hit_fail_condition c' = False" "emitted c' = emitted ?c1"
    by blast
  have "loadFiles ext ps c = Inr (c'\<lparr>task_group_running := False\<rparr>)"
    using single idle c1(1) c'(1)
    by (simp add: loadFiles_def consume_tasks_single_threaded_def Let_def)
  then show ?thesis
    using c' c1 by (simp add: load_all_closed)
qed


text \<open>
  C3. Single-threaded, on an idle driver that has not hit the fail condition and whose sources
  so far carry their index as identifier: when every one of the \<open>n\<close> paths exists, opens and
  reads, and the identifiers fit 32 bits, \<^verbatim>\<open>loadFiles\<close> appends exactly \<open>n\<close> sources, in the
  order of the paths, each with its index as identifier; with no source registered before, the
  identifiers are exactly \<open>0, ..., n - 1\<close>.
\<close>

theorem load_files_dense_ids:
  assumes single: "isSingleThreaded c" and nohit: "\<not> hit_fail_condition c"
    and idle: "tasks c = []" "task_group_running c = False"
    and ok: "\<forall>p\<in>set ps. fs_exists ext p \<and> fs_open ext p \<and> fs_read ext p \<noteq> None"
    and dense: "\<forall>k<length (sources c). unat (src_id (sources c ! k)) = k"
    and room: "length (sources c) + length ps \<le> 2 ^ 32"
  shows "\<exists>c'. loadFiles ext ps c = Inr c'
      \<and> length (sources c') = length (sources c) + length ps
      \<and> take (length (sources c)) (sources c') = sources c
      \<and> map src_path (drop (length (sources c)) (sources c')) = ps
      \<and> map src_data (drop (length (sources c)) (sources c')) = map (\<lambda>p. the (fs_read ext p)) ps
      \<and> (\<forall>k<length (sources c'). unat (src_id (sources c' ! k)) = k)
      \<and> (unat \<circ> src_id) ` set (sources c') = {0..<length (sources c) + length ps}
      \<and> num_errors c' = num_errors c \<and> task_group_running c' = False"
proof -
  let ?m = "length (sources c)"
  let ?new = "map (mk_source ext) (enumerate ?m ps)"
  from loadFiles_all_loaded[OF single nohit idle ok]
  obtain c' where c': "loadFiles ext ps c = Inr c'" "sources c' = sources c @ ?new"
    "num_errors c' = num_errors c" "task_group_running c' = False"
    by blast
  have len: "length (sources c') = ?m + length ps" using c'(2) by simp
  have paths: "map src_path ?new = ps"
    by (simp add: mk_source_def comp_def)
  have datas: "map src_data ?new = map (\<lambda>p. the (fs_read ext p)) ps"
    by (simp add: mk_source_def comp_def map_snd_enumerate_comp[of "\<lambda>p. the (fs_read ext p)"])
  have ids: "\<forall>k<length (sources c'). unat (src_id (sources c' ! k)) = k"
  proof (intro allI impI)
    fix k assume k: "k < length (sources c')"
    show "unat (src_id (sources c' ! k)) = k"
    proof (cases "k < ?m")
      case True
      with dense c'(2) show ?thesis by (simp add: nth_append)
    next
      case False
      with k len have j: "k - ?m < length ps" by simp
      have "sources c' ! k = mk_source ext (enumerate ?m ps ! (k - ?m))"
        using False j c'(2) by (simp add: nth_append)
      also have "enumerate ?m ps ! (k - ?m) = (k, ps ! (k - ?m))"
        using j False by (simp add: nth_enumerate_eq)
      finally have "src_id (sources c' ! k) = word_of_nat k" by (simp add: mk_source_def)
      moreover have "k < 2 ^ 32" using k len room by simp
      ultimately show ?thesis by (simp add: unat_source_id)
    qed
  qed
  have img: "(unat \<circ> src_id) ` set (sources c') = {0..<length (sources c')}"
    using ids by (intro dense_ids_image) simp
  show ?thesis
    using c' len paths datas ids img by (intro exI[of _ c']) simp
qed

theorem load_files_dense_ids_witness:
  "\<exists>c'. loadFiles two_files [''a.x'', ''b.x''] fresh_context = Inr c'
      \<and> length (sources c') = 2
      \<and> map src_path (sources c') = [''a.x'', ''b.x'']
      \<and> (unat \<circ> src_id) ` set (sources c') = {0..<2}
      \<and> num_errors c' = 0 \<and> task_group_running c' = False"
proof -
  have fresh: "isSingleThreaded fresh_context" "\<not> hit_fail_condition fresh_context"
    "tasks fresh_context = []" "task_group_running fresh_context = False"
    by (simp_all add: fresh_context_def isSingleThreaded_def)
  have ok: "\<forall>p\<in>set [''a.x'', ''b.x'']. fs_exists two_files p \<and> fs_open two_files p \<and> fs_read two_files p \<noteq> None"
    by (simp add: two_files_def)
  have dense: "\<forall>k<length (sources fresh_context). unat (src_id (sources fresh_context ! k)) = k"
    by (simp add: fresh_context_def)
  have room: "length (sources fresh_context) + length [''a.x'', ''b.x''] \<le> 2 ^ 32"
    by (simp add: fresh_context_def)
  have s: "sources fresh_context = []" "num_errors fresh_context = 0"
    by (simp_all add: fresh_context_def)
  from load_files_dense_ids[OF fresh ok dense room] s
  show ?thesis by auto
qed






subsection \<open>The fail condition\<close>






lemma consume_loop_fail:
  "tasks c \<noteq> [] \<Longrightarrow> \<not> hit_fail_condition c \<Longrightarrow> get_task_single_threaded ext w c = Inl e
   \<Longrightarrow> consume_loop ext w c = Inl e"
  by (subst consume_loop.simps) (simp add: hasHitFailCondition_def)

lemma consume_loop_go:
  "tasks c \<noteq> [] \<Longrightarrow> \<not> hit_fail_condition c \<Longrightarrow> get_task_single_threaded ext w c = Inr (w', c')
   \<Longrightarrow> consume_loop ext w c = consume_loop ext w' c'"
  by (subst consume_loop.simps) (simp add: hasHitFailCondition_def)



















subsection \<open>Tokenizing twice\<close>

lemma map_update_same:
  "i < length xs \<Longrightarrow> g x = g (xs ! i) \<Longrightarrow> map g (xs[i := x]) = map g xs"
  by (simp add: map_update list_update_same_conv)

lemma run_task_tokenize:
  assumes det: "tokenizer_deterministic ext f"
    and S: "sources c = S" and v: "unat sid < length S"
  shows "\<exists>c1. run_task ext (TokenizeFileTask sid) c = Inr c1
      \<and> tasks c1 = tasks c \<and> config c1 = config c
      \<and> (f (src_data (S ! unat sid)) = None \<longrightarrow> sources c1 = S)
      \<and> (\<forall>tb. f (src_data (S ! unat sid)) = Some tb
            \<longrightarrow> sources c1 = S[unat sid := (S ! unat sid)\<lparr>token_buffer := tb\<rparr>])"
proof -
  have g: "getSource (sources c) sid = Some (S ! unat sid)"
    using v S by (simp add: getSource_def)
  have r: "tk_result (tokenize ext c sid) = f (src_data (S ! unat sid))"
    using det g by (simp add: tokenizer_deterministic_def)
  show ?thesis
  proof (cases "f (src_data (S ! unat sid))")
    case None
    with r S show ?thesis
      by (simp add: run_task_def run_tokenize_file_def Let_def notify_task_errored_frame)
  next
    case (Some tb)
    with r g S show ?thesis
      by (simp add: run_task_def run_tokenize_file_def Let_def emitTrace_def)
  qed
qed

lemma tokenize_again_stable:
  assumes det: "tokenizer_deterministic ext f"
  shows "tasks c = ts \<Longrightarrow> isSingleThreaded c \<Longrightarrow>
    \<forall>t\<in>set ts. \<exists>sid. t = TokenizeFileTask sid \<and> unat sid < length (sources c) \<Longrightarrow>
    \<forall>sid tb. TokenizeFileTask sid \<in> set ts \<longrightarrow> f (src_data (sources c ! unat sid)) = Some tb
        \<longrightarrow> token_buffer (sources c ! unat sid) = tb \<Longrightarrow>
    \<exists>c'. consume_loop ext w c = Inr c' \<and> sources c' = sources c"
proof (induction ts arbitrary: c w)
  case Nil
  then show ?case by (simp add: consume_loop_done)
next
  case (Cons t rest)
  show ?case
  proof (cases "hit_fail_condition c")
    case True
    then show ?thesis by (simp add: consume_loop_done)
  next
    case False
    from Cons.prems(3) obtain sid where t: "t = TokenizeFileTask sid"
      and v: "unat sid < length (sources c)" by auto
    let ?c0 = "c\<lparr>tasks := rest\<rparr>"
    have S0: "sources ?c0 = sources c" by simp
    from run_task_tokenize[OF det S0 v]
    obtain c1 where c1: "run_task ext (TokenizeFileTask sid) ?c0 = Inr c1"
      "tasks c1 = rest" "config c1 = config c"
      and none: "f (src_data (sources c ! unat sid)) = None \<Longrightarrow> sources c1 = sources c"
      and some: "\<And>tb. f (src_data (sources c ! unat sid)) = Some tb
            \<Longrightarrow> sources c1 = (sources c)[unat sid := (sources c ! unat sid)\<lparr>token_buffer := tb\<rparr>]"
      by auto
    have same: "sources c1 = sources c"
    proof (cases "f (src_data (sources c ! unat sid))")
      case None
      then show ?thesis by (rule none)
    next
      case (Some tb)
      with Cons.prems(4) t have "token_buffer (sources c ! unat sid) = tb" by simp
      then have "(sources c ! unat sid)\<lparr>token_buffer := tb\<rparr> = sources c ! unat sid" by auto
      with some[OF Some] show ?thesis by simp
    qed
    have ts: "tasks c = TokenizeFileTask sid # rest" using Cons.prems(1) t by simp
    have step: "consume_loop ext w c = consume_loop ext (w\<lparr>is_working := False\<rparr>) c1"
      by (rule consume_loop_step[OF ts False Cons.prems(2) c1(1)])
    have "\<exists>c'. consume_loop ext (w\<lparr>is_working := False\<rparr>) c1 = Inr c' \<and> sources c' = sources c1"
    proof (rule Cons.IH)
      show "tasks c1 = rest" by (rule c1(2))
      show "isSingleThreaded c1" using Cons.prems(2) c1(3) by (simp add: isSingleThreaded_def)
      show "\<forall>t\<in>set rest. \<exists>sid. t = TokenizeFileTask sid \<and> unat sid < length (sources c1)"
        using Cons.prems(3) same by simp
      show "\<forall>sid tb. TokenizeFileTask sid \<in> set rest \<longrightarrow> f (src_data (sources c1 ! unat sid)) = Some tb
        \<longrightarrow> token_buffer (sources c1 ! unat sid) = tb"
        using Cons.prems(4) same by simp
    qed
    with step same show ?thesis by simp
  qed
qed

lemma map_eq_nth: "map g a = map g b \<Longrightarrow> j < length a \<Longrightarrow> g (a ! j) = g (b ! j)"
  by (metis length_map nth_map)

lemma run_task_tokenize_props:
  assumes det: "tokenizer_deterministic ext f"
    and S: "sources c = S" and v: "unat sid < length S"
  shows "\<exists>c1. run_task ext (TokenizeFileTask sid) c = Inr c1
      \<and> tasks c1 = tasks c \<and> config c1 = config c
      \<and> length (sources c1) = length S
      \<and> map src_id (sources c1) = map src_id S
      \<and> map src_path (sources c1) = map src_path S
      \<and> map src_data (sources c1) = map src_data S
      \<and> (\<forall>j<length S. j \<noteq> unat sid \<longrightarrow> sources c1 ! j = S ! j)
      \<and> (\<forall>tb. f (src_data (S ! unat sid)) = Some tb \<longrightarrow> token_buffer (sources c1 ! unat sid) = tb)"
proof -
  from run_task_tokenize[OF det S v]
  obtain c1 where c1: "run_task ext (TokenizeFileTask sid) c = Inr c1"
      "tasks c1 = tasks c" "config c1 = config c"
      and none: "f (src_data (S ! unat sid)) = None \<Longrightarrow> sources c1 = S"
      and some: "\<And>tb. f (src_data (S ! unat sid)) = Some tb
            \<Longrightarrow> sources c1 = S[unat sid := (S ! unat sid)\<lparr>token_buffer := tb\<rparr>]"
    by auto
  have "length (sources c1) = length S
      \<and> map src_id (sources c1) = map src_id S
      \<and> map src_path (sources c1) = map src_path S
      \<and> map src_data (sources c1) = map src_data S
      \<and> (\<forall>j<length S. j \<noteq> unat sid \<longrightarrow> sources c1 ! j = S ! j)
      \<and> (\<forall>tb. f (src_data (S ! unat sid)) = Some tb \<longrightarrow> token_buffer (sources c1 ! unat sid) = tb)"
  proof (cases "f (src_data (S ! unat sid))")
    case None
    with none show ?thesis by simp
  next
    case (Some tb)
    from some[OF Some] v show ?thesis
      using Some by (simp add: map_update_same)
  qed
  with c1 show ?thesis by blast
qed

lemma tokenize_loop_installs:
  assumes det: "tokenizer_deterministic ext f"
  shows "tasks c = ts \<Longrightarrow> isSingleThreaded c \<Longrightarrow>
    \<forall>t\<in>set ts. \<exists>sid. t = TokenizeFileTask sid \<and> unat sid < length (sources c) \<Longrightarrow>
    consume_loop ext w c = Inr c' \<Longrightarrow>
    length (sources c') = length (sources c)
    \<and> map src_id (sources c') = map src_id (sources c)
    \<and> map src_path (sources c') = map src_path (sources c)
    \<and> map src_data (sources c') = map src_data (sources c)
    \<and> (tasks c' = [] \<longrightarrow>
         (\<forall>sid tb. TokenizeFileTask sid \<in> set ts \<longrightarrow> f (src_data (sources c ! unat sid)) = Some tb
             \<longrightarrow> token_buffer (sources c' ! unat sid) = tb))
    \<and> (\<forall>j<length (sources c). (\<forall>sid. TokenizeFileTask sid \<in> set ts \<longrightarrow> unat sid \<noteq> j)
          \<longrightarrow> sources c' ! j = sources c ! j)"
proof (induction ts arbitrary: c w)
  case Nil
  then have "consume_loop ext w c = Inr c" by (simp add: consume_loop_done)
  with Nil.prems(4) have "c' = c" by simp
  then show ?case by simp
next
  case (Cons t rest)
  show ?case
  proof (cases "hit_fail_condition c")
    case True
    then have "consume_loop ext w c = Inr c" by (simp add: consume_loop_done)
    with Cons.prems(4) have "c' = c" by simp
    with Cons.prems(1) show ?thesis by simp
  next
    case False
    let ?S = "sources c"
    from Cons.prems(3) obtain sid0 where t: "t = TokenizeFileTask sid0"
      and v: "unat sid0 < length ?S" by auto
    let ?c0 = "c\<lparr>tasks := rest\<rparr>"
    have S0: "sources ?c0 = ?S" by simp
    from run_task_tokenize_props[OF det S0 v]
    obtain c1 where c1: "run_task ext (TokenizeFileTask sid0) ?c0 = Inr c1"
      "tasks c1 = rest" "config c1 = config c"
      and len1: "length (sources c1) = length ?S"
      and ids1: "map src_id (sources c1) = map src_id ?S"
      and paths1: "map src_path (sources c1) = map src_path ?S"
      and data1: "map src_data (sources c1) = map src_data ?S"
      and other1: "\<And>j. j < length ?S \<Longrightarrow> j \<noteq> unat sid0 \<Longrightarrow> sources c1 ! j = ?S ! j"
      and inst1: "\<And>tb. f (src_data (?S ! unat sid0)) = Some tb \<Longrightarrow> token_buffer (sources c1 ! unat sid0) = tb"
      by auto
    have ts: "tasks c = TokenizeFileTask sid0 # rest" using Cons.prems(1) t by simp
    have step: "consume_loop ext w c = consume_loop ext (w\<lparr>is_working := False\<rparr>) c1"
      by (rule consume_loop_step[OF ts False Cons.prems(2) c1(1)])
    have loop1: "consume_loop ext (w\<lparr>is_working := False\<rparr>) c1 = Inr c'"
      using step Cons.prems(4) by simp
    have single1: "isSingleThreaded c1" using Cons.prems(2) c1(3) by (simp add: isSingleThreaded_def)
    have valid1: "\<forall>t\<in>set rest. \<exists>sid. t = TokenizeFileTask sid \<and> unat sid < length (sources c1)"
      using Cons.prems(3) len1 by simp
    from Cons.IH[OF c1(2) single1 valid1 loop1]
    have len: "length (sources c') = length (sources c1)"
      and ids: "map src_id (sources c') = map src_id (sources c1)"
      and paths: "map src_path (sources c') = map src_path (sources c1)"
      and data: "map src_data (sources c') = map src_data (sources c1)"
      and inst: "\<And>sid tb. tasks c' = [] \<Longrightarrow> TokenizeFileTask sid \<in> set rest \<Longrightarrow>
            f (src_data (sources c1 ! unat sid)) = Some tb \<Longrightarrow> token_buffer (sources c' ! unat sid) = tb"
      and other: "\<And>j. j < length (sources c1) \<Longrightarrow> \<forall>sid. TokenizeFileTask sid \<in> set rest \<longrightarrow> unat sid \<noteq> j
            \<Longrightarrow> sources c' ! j = sources c1 ! j"
      by blast+
    have d1: "\<And>j. j < length ?S \<Longrightarrow> src_data (sources c1 ! j) = src_data (?S ! j)"
      using map_eq_nth[OF data1] len1 by simp
    have A: "tasks c' = [] \<longrightarrow>
         (\<forall>sid tb. TokenizeFileTask sid \<in> set (t # rest) \<longrightarrow> f (src_data (?S ! unat sid)) = Some tb
             \<longrightarrow> token_buffer (sources c' ! unat sid) = tb)"
    proof (intro impI allI)
      fix sid tb
      assume fin: "tasks c' = []" and mem: "TokenizeFileTask sid \<in> set (t # rest)"
        and f: "f (src_data (?S ! unat sid)) = Some tb"
      show "token_buffer (sources c' ! unat sid) = tb"
      proof (cases "TokenizeFileTask sid \<in> set rest")
        case True
        with Cons.prems(3) have "unat sid < length ?S" by auto
        with f d1 have "f (src_data (sources c1 ! unat sid)) = Some tb" by simp
        with fin True show ?thesis by (rule inst)
      next
        case False
        with mem t have eq: "sid = sid0" by simp
        have "\<forall>s. TokenizeFileTask s \<in> set rest \<longrightarrow> unat s \<noteq> unat sid0"
        proof (intro allI impI)
          fix s assume "TokenizeFileTask s \<in> set rest"
          with False eq have "s \<noteq> sid0" by auto
          then show "unat s \<noteq> unat sid0" by (simp add: word_unat_eq_iff)
        qed
        with other[of "unat sid0"] v len1 have "sources c' ! unat sid0 = sources c1 ! unat sid0"
          by simp
        with inst1[of tb] f eq show ?thesis by simp
      qed
    qed
    have B: "\<forall>j<length ?S. (\<forall>sid. TokenizeFileTask sid \<in> set (t # rest) \<longrightarrow> unat sid \<noteq> j)
          \<longrightarrow> sources c' ! j = ?S ! j"
    proof (intro allI impI)
      fix j assume j: "j < length ?S"
        and no: "\<forall>sid. TokenizeFileTask sid \<in> set (t # rest) \<longrightarrow> unat sid \<noteq> j"
      from no t have "j \<noteq> unat sid0" by auto
      with j have "sources c1 ! j = ?S ! j" by (simp add: other1)
      moreover from no have "\<forall>sid. TokenizeFileTask sid \<in> set rest \<longrightarrow> unat sid \<noteq> j" by simp
      with j len1 have "sources c' ! j = sources c1 ! j" by (simp add: other)
      ultimately show "sources c' ! j = ?S ! j" by simp
    qed
    from len len1 ids ids1 paths paths1 data data1 A B show ?thesis by simp
  qed
qed

lemma tokenizeLoadedFiles_single:
  "isSingleThreaded c \<Longrightarrow> task_group_running c = False \<Longrightarrow>
   tokenizeLoadedFiles ext c
     = (case consume_loop ext \<lparr>is_working = False\<rparr> (tokenizeLoadedFiles_enqueue c) of
          Inl e \<Rightarrow> Inl e | Inr c' \<Rightarrow> Inr (c'\<lparr>task_group_running := False\<rparr>))"
  by (simp add: tokenizeLoadedFiles_def tokenizeLoadedFiles_enqueue_def
        consume_tasks_single_threaded_def Let_def isSingleThreaded_def)

lemma get_task_config:
  assumes "get_task_single_threaded ext w c = Inr (w', c')"
  shows "config c' = config c"
proof (cases "tasks c")
  case Nil
  with assms show ?thesis by (auto simp: get_task_single_threaded_def split: if_splits)
next
  case (Cons t rest)
  with assms have "run_task ext t (c\<lparr>tasks := rest\<rparr>) = Inr c'"
    by (auto simp: get_task_single_threaded_def split: if_splits sum.splits)
  from run_task_frame[OF this] show ?thesis by simp
qed

lemma consume_loop_config:
  "consume_loop ext w c = Inr c2 \<Longrightarrow> config c2 = config c"
proof (induction ext w c rule: consume_loop.induct)
  case (1 ext w c)
  show ?case
  proof (cases "tasks c \<noteq> [] \<and> hasHitFailCondition c = False")
    case False
    then have "consume_loop ext w c = Inr c"
      by (intro consume_loop_done) (auto simp: hasHitFailCondition_def)
    with "1.prems" show ?thesis by simp
  next
    case go: True
    then have g: "tasks c \<noteq> []" "\<not> hit_fail_condition c" by (simp_all add: hasHitFailCondition_def)
    show ?thesis
    proof (cases "get_task_single_threaded ext w c")
      case (Inl e)
      with "1.prems" show ?thesis by (simp add: consume_loop_fail[OF g])
    next
      case (Inr wc)
      obtain w' c' where wc: "wc = (w', c')" by (cases wc) auto
      have gt: "get_task_single_threaded ext w c = Inr (w', c')" using Inr wc by simp
      have "consume_loop ext w' c' = Inr c2"
        using "1.prems" by (simp add: consume_loop_go[OF g gt])
      then have "config c2 = config c'"
        by (rule "1.IH"[OF go Inr wc[symmetric]])
      with get_task_config[OF gt] show ?thesis by simp
    qed
  qed
qed

lemma tokenizing_enqueue: "tokenizeLoadedFiles_enqueue example_context
   = example_context\<lparr>task_group_running := True, tasks := [TokenizeFileTask 0]\<rparr>"
  by (simp add: tokenizeLoadedFiles_enqueue_def Let_def example_context_def example_source_def)

lemma tokenizing_task: "run_task tokenizing_externals (TokenizeFileTask 0)
     (example_context\<lparr>task_group_running := True, tasks := []\<rparr>)
   = Inr (example_context\<lparr>task_group_running := True, tasks := [],
        traces := [''Tokenized file: '' @ [dquote_char] @ ''t.x'' @ [dquote_char]],
        sources := [example_source\<lparr>token_buffer := the (byte_tokenizer (src_data example_source))\<rparr>]\<rparr>)"
  by (simp add: run_task_def run_tokenize_file_def tokenizing_externals_def getSource_def Let_def
        emitTrace_def example_context_def byte_tokenizer_def example_source_def)

lemma tokenizing_first_run:
  "\<exists>c1. tokenizeLoadedFiles tokenizing_externals example_context = Inr c1
      \<and> \<not> hit_fail_condition c1
      \<and> map token_buffer (sources c1) = [the (byte_tokenizer (src_data example_source))]"
proof -
  let ?w = "\<lparr>is_working = False\<rparr>"
  let ?e = "example_context\<lparr>task_group_running := True, tasks := [TokenizeFileTask 0]\<rparr>"
  let ?c = "example_context\<lparr>task_group_running := True, tasks := [],
        traces := [''Tokenized file: '' @ [dquote_char] @ ''t.x'' @ [dquote_char]],
        sources := [example_source\<lparr>token_buffer := the (byte_tokenizer (src_data example_source))\<rparr>]\<rparr>"
  have single: "isSingleThreaded example_context" "isSingleThreaded ?e"
    and idle: "task_group_running example_context = False"
    and nohit: "\<not> hit_fail_condition example_context" "\<not> hit_fail_condition ?e"
    by (simp_all add: example_context_def isSingleThreaded_def)
  have ts: "tasks ?e = [TokenizeFileTask 0]" by simp
  have rt: "run_task tokenizing_externals (TokenizeFileTask 0) (?e\<lparr>tasks := []\<rparr>) = Inr ?c"
    using tokenizing_task by simp
  have "consume_loop tokenizing_externals ?w ?e
      = consume_loop tokenizing_externals (?w\<lparr>is_working := False\<rparr>) ?c"
    by (rule consume_loop_step[OF ts nohit(2) single(2) rt])
  also have "\<dots> = Inr ?c" by (rule consume_loop_done) simp
  finally have "tokenizeLoadedFiles tokenizing_externals example_context
      = Inr (?c\<lparr>task_group_running := False\<rparr>)"
    by (simp add: tokenizeLoadedFiles_single[OF single(1) idle] tokenizing_enqueue)
  then show ?thesis using nohit(1) by simp
qed


text \<open>
  C8. With a tokenizer that is a function \<open>f\<close> of the source bytes, on a single-threaded
  driver with an empty queue whose source identifiers all name registered sources: when a first
  \<^verbatim>\<open>tokenizeLoadedFiles\<close> returns without the fail condition, a second one returns as well and
  leaves every source with the token buffer the first run left it, of the same length and the
  same contents; the sources as a whole are unchanged.
\<close>

theorem retokenize_same_buffers:
  assumes det: "tokenizer_deterministic ext f"
    and single: "isSingleThreaded c0" and idle: "tasks c0 = []"
    and valid: "\<forall>s\<in>set (sources c0). unat (src_id s) < length (sources c0)"
    and first: "tokenizeLoadedFiles ext c0 = Inr c1" and clean: "\<not> hit_fail_condition c1"
  shows "\<exists>c2. tokenizeLoadedFiles ext c1 = Inr c2
      \<and> map token_buffer (sources c2) = map token_buffer (sources c1)
      \<and> map (\<lambda>s. length (tokens (token_buffer s))) (sources c2)
          = map (\<lambda>s. length (tokens (token_buffer s))) (sources c1)
      \<and> sources c2 = sources c1"
proof -
  let ?w = "\<lparr>is_working = False\<rparr>"
  let ?S0 = "sources c0"
  let ?ts = "map (\<lambda>source. TokenizeFileTask (src_id source)) ?S0"
  let ?e0 = "tokenizeLoadedFiles_enqueue c0"
  from first have idle0: "task_group_running c0 = False"
    by (simp add: tokenizeLoadedFiles_def split: if_splits)
  have e0: "tasks ?e0 = ?ts" "sources ?e0 = ?S0" "isSingleThreaded ?e0"
    using idle single by (simp_all add: tokenizeLoadedFiles_enqueue_def Let_def isSingleThreaded_def)
  have valid0: "\<forall>t\<in>set ?ts. \<exists>sid. t = TokenizeFileTask sid \<and> unat sid < length (sources ?e0)"
    using valid e0(2) by auto
  from first obtain c' where loop: "consume_loop ext ?w ?e0 = Inr c'"
    and c1: "c1 = c'\<lparr>task_group_running := False\<rparr>"
    by (auto simp: tokenizeLoadedFiles_single[OF single idle0] split: sum.splits)
  have valid0': "\<forall>sid. TokenizeFileTask sid \<in> set (tasks ?e0) \<longrightarrow> unat sid < length (sources ?e0)"
    using valid0 e0(1) by auto
  from consume_loop_returns[OF e0(3) valid0', of ext ?w] loop
  have "tasks c' = [] \<or> hit_fail_condition c'" by simp
  with clean c1 have empty: "tasks c' = []" by simp
  from tokenize_loop_installs[OF det e0(1) e0(3) valid0 loop] e0(2)
  have len: "length (sources c') = length ?S0"
    and ids: "map src_id (sources c') = map src_id ?S0"
    and data: "map src_data (sources c') = map src_data ?S0"
    and inst: "\<And>sid tb. TokenizeFileTask sid \<in> set ?ts \<Longrightarrow> f (src_data (?S0 ! unat sid)) = Some tb
        \<Longrightarrow> token_buffer (sources c' ! unat sid) = tb"
    using empty by simp_all
  let ?e1 = "tokenizeLoadedFiles_enqueue c1"
  have cfg: "config c1 = config c0"
    using consume_loop_config[OF loop] c1
    by (simp add: tokenizeLoadedFiles_enqueue_def Let_def)
  have single1: "isSingleThreaded c1" using single cfg by (simp add: isSingleThreaded_def)
  have idle1: "task_group_running c1 = False" "tasks c1 = []" using c1 empty by simp_all
  have S1: "sources c1 = sources c'" using c1 by simp
  have ts1: "map (\<lambda>source. TokenizeFileTask (src_id source)) (sources c1) = ?ts"
  proof -
    have "map (\<lambda>source. TokenizeFileTask (src_id source)) (sources c1)
        = map TokenizeFileTask (map src_id (sources c1))" by (simp add: comp_def)
    also have "\<dots> = map TokenizeFileTask (map src_id ?S0)" using ids S1 by simp
    finally show ?thesis by (simp add: comp_def)
  qed
  have e1: "tasks ?e1 = ?ts" "sources ?e1 = sources c1" "isSingleThreaded ?e1"
    using idle1 single1 ts1
    by (simp_all add: tokenizeLoadedFiles_enqueue_def Let_def isSingleThreaded_def)
  have valid1: "\<forall>t\<in>set ?ts. \<exists>sid. t = TokenizeFileTask sid \<and> unat sid < length (sources ?e1)"
    using valid0 e0(2) e1(2) S1 len by simp
  have d: "\<And>j. j < length ?S0 \<Longrightarrow> src_data (sources c1 ! j) = src_data (?S0 ! j)"
    using map_eq_nth[OF data] len S1 by simp
  have K: "\<forall>sid tb. TokenizeFileTask sid \<in> set ?ts
        \<longrightarrow> f (src_data (sources ?e1 ! unat sid)) = Some tb
        \<longrightarrow> token_buffer (sources ?e1 ! unat sid) = tb"
  proof (intro allI impI)
    fix sid tb
    assume mem: "TokenizeFileTask sid \<in> set ?ts"
      and fs: "f (src_data (sources ?e1 ! unat sid)) = Some tb"
    from mem valid have v: "unat sid < length ?S0" by auto
    from fs e1(2) d[OF v] have "f (src_data (?S0 ! unat sid)) = Some tb" by simp
    from inst[OF mem this] e1(2) S1 show "token_buffer (sources ?e1 ! unat sid) = tb" by simp
  qed
  from tokenize_again_stable[OF det e1(1) e1(3) valid1 K, of ?w]
  obtain c'' where loop2: "consume_loop ext ?w ?e1 = Inr c''" and same: "sources c'' = sources ?e1"
    by blast
  have "tokenizeLoadedFiles ext c1 = Inr (c''\<lparr>task_group_running := False\<rparr>)"
    using loop2 by (simp add: tokenizeLoadedFiles_single[OF single1 idle1(1)])
  moreover have "sources (c''\<lparr>task_group_running := False\<rparr>) = sources c1"
    using same e1(2) by simp
  ultimately show ?thesis by simp
qed

theorem retokenize_same_buffers_witness:
  "\<exists>c1 c2. tokenizeLoadedFiles tokenizing_externals example_context = Inr c1
      \<and> tokenizeLoadedFiles tokenizing_externals c1 = Inr c2
      \<and> map token_buffer (sources c1) = [the (byte_tokenizer (src_data example_source))]
      \<and> map token_buffer (sources c2) = map token_buffer (sources c1)"
proof -
  from tokenizing_first_run obtain c1
    where first: "tokenizeLoadedFiles tokenizing_externals example_context = Inr c1"
      and clean: "\<not> hit_fail_condition c1"
      and bufs: "map token_buffer (sources c1) = [the (byte_tokenizer (src_data example_source))]"
    by (elim exE conjE)
  have det: "tokenizer_deterministic tokenizing_externals byte_tokenizer"
    by (simp add: tokenizer_deterministic_def tokenizing_externals_def)
  have single: "isSingleThreaded example_context" and idle: "tasks example_context = []"
    by (simp_all add: example_context_def isSingleThreaded_def)
  have valid: "\<forall>s\<in>set (sources example_context). unat (src_id s) < length (sources example_context)"
    by (simp add: example_context_def example_source_def)
  from retokenize_same_buffers[OF det single idle valid first clean]
  obtain c2 where second: "tokenizeLoadedFiles tokenizing_externals c1 = Inr c2"
    and same: "map token_buffer (sources c2) = map token_buffer (sources c1)"
    by (elim exE conjE)
  show ?thesis
    by (intro exI[of _ c1] exI[of _ c2] conjI first second bufs same)
qed


end
